theory Spec2Isabelle
  imports Main "HOL-Library.Sublist"
begin

section \<open>FindDriveData.py: the appointment scraper\<close>

text \<open>
  A shallow embedding of \<^verbatim>\<open>src/FindDriveData.py\<close>. The script polls a booking page,
  keeps the appointments that start late enough for their day, drops those it has already
  stored in the table \<^verbatim>\<open>appointments\<close>, stores the new ones and mails them.

  What the script takes from outside is a parameter of the model:
  \<^item> the list \<^verbatim>\<open>date_elements\<close> that Selenium finds on the page (lines 165 to 177 are not
    modelled), each element being the four attributes the loop reads;
  \<^item> the contents of the table when the cycle starts;
  \<^item> for each call to sqlite (\<^verbatim>\<open>execute\<close>, \<^verbatim>\<open>commit\<close>) whether it raises;
  \<^item> for each step of the SMTP session whether it raises.

  Strings are lists of characters and are taken to be ASCII. Every Python exception that the
  script can meet is a value of \<open>exn\<close>; all of them are subclasses of \<^verbatim>\<open>Exception\<close>.
\<close>

datatype exn = TypeError | AttributeError | IndexError | ValueError | OperationalError | SMTPException

subsection \<open>Python strings and integers\<close>

text \<open>
  The characters that \<^verbatim>\<open>str.strip\<close> and the regular expression class \<^verbatim>\<open>\s\<close> treat
  as white space, among ASCII: tab, line feed, vertical tab, form feed, carriage return, the
  four separators 28 to 31, and the space.
\<close>

definition is_space :: "char \<Rightarrow> bool" where
  "is_space c = (of_char c \<in> set [9, 10, 11, 12, 13, 28, 29, 30, 31, 32 :: nat])"

definition is_digit :: "char \<Rightarrow> bool" where
  "is_digit c = (48 \<le> (of_char c :: nat) \<and> (of_char c :: nat) \<le> 57)"

definition digit_val :: "char \<Rightarrow> nat" where
  "digit_val c = of_char c - 48"

definition digit_char :: "nat \<Rightarrow> char" where
  "digit_char d = char_of (48 + d)"

definition ascii_lower :: "char \<Rightarrow> char" where
  "ascii_lower c = (if 65 \<le> (of_char c :: nat) \<and> (of_char c :: nat) \<le> 90
                    then char_of (of_char c + (32 :: nat)) else c)"

text \<open>\<^verbatim>\<open>s.strip()\<close>\<close>

definition py_strip :: "string \<Rightarrow> string" where
  "py_strip s = rev (dropWhile is_space (rev (dropWhile is_space s)))"

text \<open>\<^verbatim>\<open>s.split(sep)\<close> for a separator of one character: never the empty list.\<close>

fun py_split :: "char \<Rightarrow> string \<Rightarrow> string list" where
  "py_split sep [] = [[]]"
| "py_split sep (c # cs) =
     (if c = sep then [] # py_split sep cs
      else (case py_split sep cs of [] \<Rightarrow> [[c]] | w # ws \<Rightarrow> (c # w) # ws))"

text \<open>\<^verbatim>\<open>sep.join(xs)\<close>\<close>

fun py_join :: "string \<Rightarrow> string list \<Rightarrow> string" where
  "py_join sep [] = []"
| "py_join sep [x] = x"
| "py_join sep (x # y # ys) = x @ sep @ py_join sep (y # ys)"

text \<open>
  \<^verbatim>\<open>int(s)\<close> in base ten: white space around the literal is dropped (for \<^verbatim>\<open>int\<close> the
  ASCII white space is tab to carriage return and the space, without the separators 28 to
  31), one sign is allowed, and the digits may be separated by single underscores. Anything
  else raises \<^verbatim>\<open>ValueError\<close>. \<open>py_digits acc s\<close> reads what follows a digit.
\<close>

fun py_digits :: "nat \<Rightarrow> string \<Rightarrow> nat option" where
  "py_digits acc [] = Some acc"
| "py_digits acc [c] = (if is_digit c then Some (10 * acc + digit_val c) else None)"
| "py_digits acc (c # d # cs) =
     (if is_digit c then py_digits (10 * acc + digit_val c) (d # cs)
      else if c = CHR ''_'' \<and> is_digit d then py_digits (10 * acc + digit_val d) cs
      else None)"

definition py_unsigned :: "string \<Rightarrow> nat option" where
  "py_unsigned s =
     (case s of
        [] \<Rightarrow> None
      | c # cs \<Rightarrow> if is_digit c then py_digits (digit_val c) cs else None)"

definition is_c_space :: "char \<Rightarrow> bool" where
  "is_c_space c = (of_char c \<in> set [9, 10, 11, 12, 13, 32 :: nat])"

definition py_int :: "string \<Rightarrow> exn + int" where
  "py_int s =
     (let t = rev (dropWhile is_c_space (rev (dropWhile is_c_space s)));
          r = (case t of
                 [] \<Rightarrow> None
               | c # cs \<Rightarrow>
                   if c = CHR ''-'' then map_option (\<lambda>n. - int n) (py_unsigned cs)
                   else if c = CHR ''+'' then map_option int (py_unsigned cs)
                   else map_option int (py_unsigned t))
      in case r of None \<Rightarrow> Inl ValueError | Some i \<Rightarrow> Inr i)"

text \<open>\<^verbatim>\<open>str(i)\<close>, which is what an f-string writes for an integer.\<close>

fun str_nat :: "nat \<Rightarrow> string" where
  "str_nat n = (if n < 10 then [digit_char n] else str_nat (n div 10) @ [digit_char (n mod 10)])"

definition py_str_int :: "int \<Rightarrow> string" where
  "py_str_int i = (if i < 0 then CHR ''-'' # str_nat (nat (- i)) else str_nat (nat i))"

text \<open>What an f-string writes for a value that is a string or \<^verbatim>\<open>None\<close>.\<close>

definition py_format :: "string option \<Rightarrow> string" where
  "py_format v = (case v of None \<Rightarrow> ''None'' | Some s \<Rightarrow> s)"

subsection \<open>Configuration (lines 43 to 51)\<close>

definition WEEKDAY_START_TIME :: string where
  "WEEKDAY_START_TIME = ''04:30 PM''"

definition WEEKEND_START_TIME :: string where
  "WEEKEND_START_TIME = ''09:00 AM''"

definition SENDER_EMAIL :: string where
  "SENDER_EMAIL = ''your_email@gmail.com''"

definition RECIPIENT_EMAILS :: "string list" where
  "RECIPIENT_EMAILS = [''recipient1@example.com'', ''recipient2@example.com'']"

definition LOGIN_LINK :: string where
  "LOGIN_LINK = ''https://example.com/login''"

subsection \<open>\<^verbatim>\<open>datetime.strptime(s, "%I:%M %p")\<close>\<close>

text \<open>
  A \<^verbatim>\<open>datetime\<close> without time zone. Two of them compare as the tuples of their fields do.
\<close>

record datetime =
  year :: nat
  month :: nat
  day :: nat
  hour :: nat
  minute :: nat
  second :: nat

fun lex_ge :: "nat list \<Rightarrow> nat list \<Rightarrow> bool" where
  "lex_ge [] [] = True"
| "lex_ge [] (y # ys) = False"
| "lex_ge (x # xs) [] = True"
| "lex_ge (x # xs) (y # ys) = (if x = y then lex_ge xs ys else x > y)"

definition datetime_ge :: "datetime \<Rightarrow> datetime \<Rightarrow> bool" where
  "datetime_ge a b =
     lex_ge [year a, month a, day a, hour a, minute a, second a]
            [year b, month b, day b, hour b, minute b, second b]"

text \<open>
  The library turns the format into the regular expression
  \<^verbatim>\<open>(?P<I>1[0-2]|0[1-9]|[1-9]):(?P<M>[0-5]\d|\d)\s+(?P<p>am|pm)\<close>, matched at the start of
  the string, ignoring case (English names of the two halves of the day). Each piece below
  returns the ways it can match a prefix, in the order in which a backtracking matcher tries
  them, as pairs of the matched text and the rest of the string.
\<close>

definition re_I :: "string \<Rightarrow> (string \<times> string) list" where
  "re_I s =
     (case s of
        c1 # c2 # r \<Rightarrow>
          (if c1 = CHR ''1'' \<and> c2 \<in> set ''012'' then [([c1, c2], r)] else []) @
          (if c1 = CHR ''0'' \<and> c2 \<in> set ''123456789'' then [([c1, c2], r)] else [])
      | _ \<Rightarrow> []) @
     (case s of
        c # r \<Rightarrow> if c \<in> set ''123456789'' then [([c], r)] else []
      | [] \<Rightarrow> [])"

definition re_M :: "string \<Rightarrow> (string \<times> string) list" where
  "re_M s =
     (case s of
        c1 # c2 # r \<Rightarrow> if c1 \<in> set ''012345'' \<and> is_digit c2 then [([c1, c2], r)] else []
      | _ \<Rightarrow> []) @
     (case s of
        c # r \<Rightarrow> if is_digit c then [([c], r)] else []
      | [] \<Rightarrow> [])"

definition re_colon :: "string \<Rightarrow> string list" where
  "re_colon s = (case s of c # r \<Rightarrow> if c = CHR '':'' then [r] else [] | [] \<Rightarrow> [])"

text \<open>\<^verbatim>\<open>\s+\<close> is greedy: the longest run of white space first.\<close>

fun re_spaces :: "string \<Rightarrow> string list" where
  "re_spaces [] = []"
| "re_spaces (c # cs) = (if is_space c then re_spaces cs @ [cs] else [])"

definition re_p :: "string \<Rightarrow> (string \<times> string) list" where
  "re_p s =
     (case s of
        c1 # c2 # r \<Rightarrow>
          (if ascii_lower c1 = CHR ''a'' \<and> ascii_lower c2 = CHR ''m'' then [([c1, c2], r)] else []) @
          (if ascii_lower c1 = CHR ''p'' \<and> ascii_lower c2 = CHR ''m'' then [([c1, c2], r)] else [])
      | _ \<Rightarrow> [])"

text \<open>The first match, if any: the three groups and what is left of the string.\<close>

definition re_match :: "string \<Rightarrow> (string \<times> string \<times> string \<times> string) option" where
  "re_match s =
     (case List.bind (re_I s) (\<lambda>(i, r1).
           List.bind (re_colon r1) (\<lambda>r2.
           List.bind (re_M r2) (\<lambda>(m, r3).
           List.bind (re_spaces r3) (\<lambda>r4.
           List.bind (re_p r4) (\<lambda>(p, r5). [(i, m, p, r5)]))))) of
        [] \<Rightarrow> None
      | found # _ \<Rightarrow> Some found)"

definition dec_val :: "string \<Rightarrow> nat" where
  "dec_val s = foldl (\<lambda>a c. 10 * a + digit_val c) 0 s"

text \<open>
  No match, or a match that leaves part of the string, raises \<^verbatim>\<open>ValueError\<close>. Hour 12 is
  midnight before noon and stays 12 after noon; the date defaults to 1 January 1900.
\<close>

definition strptime :: "string \<Rightarrow> exn + datetime" where
  "strptime data_string =
     (case re_match data_string of
        None \<Rightarrow> Inl ValueError
      | Some (i, m, p, rest) \<Rightarrow>
          if rest \<noteq> [] then Inl ValueError
          else
            (let h = dec_val i;
                 ampm = map ascii_lower p;
                 h' = (if ampm = ''am'' then (if h = 12 then 0 else h)
                       else (if h \<noteq> 12 then h + 12 else h))
             in Inr \<lparr>year = 1900, month = 1, day = 1, hour = h', minute = dec_val m, second = 0\<rparr>))"

subsection \<open>\<^verbatim>\<open>is_time_greater_or_equal\<close> (lines 65 to 78)\<close>

definition is_time_greater_or_equal :: "string \<Rightarrow> string \<Rightarrow> exn + bool" where
  "is_time_greater_or_equal time1 time2 =
     (case strptime time1 of
        Inl e \<Rightarrow> Inl e
      | Inr time1_dt \<Rightarrow>
          (case strptime time2 of
             Inl e \<Rightarrow> Inl e
           | Inr time2_dt \<Rightarrow> Inr (datetime_ge time1_dt time2_dt)))"

subsection \<open>\<^verbatim>\<open>convert_24hr_to_12hr\<close> (lines 81 to 95)\<close>

text \<open>
  The argument is what \<^verbatim>\<open>get_attribute\<close> returned: a string, or \<^verbatim>\<open>None\<close> when the
  element lacks the attribute, and slicing \<^verbatim>\<open>None\<close> raises \<^verbatim>\<open>TypeError\<close>.
\<close>

definition convert_24hr_to_12hr :: "string option \<Rightarrow> exn + string" where
  "convert_24hr_to_12hr time_str =
     (case time_str of
        None \<Rightarrow> Inl TypeError
      | Some s \<Rightarrow>
          (case py_int (take 2 s) of
             Inl e \<Rightarrow> Inl e
           | Inr hours \<Rightarrow>
               (let minutes = drop 2 s;
                    period = (if hours < 12 then ''AM'' else ''PM'');
                    hours' = (if 1 \<le> hours \<and> hours \<le> 12 then hours
                              else if hours > 12 then hours - 12 else 12)
                in Inr (py_str_int hours' @ '':'' @ minutes @ '' '' @ period))))"

subsection \<open>The table \<^verbatim>\<open>appointments\<close> (lines 124 to 144)\<close>

text \<open>
  A row without its \<^verbatim>\<open>id\<close>, which is the position of the row in the table. The column
  \<^verbatim>\<open>appointment_string\<close> is \<^verbatim>\<open>UNIQUE\<close>; \<^verbatim>\<open>instructor\<close> is \<^verbatim>\<open>NULL\<close> when the
  script binds \<^verbatim>\<open>None\<close>.
\<close>

record row =
  appointment_string :: string
  start_time_12hr :: string
  end_time_12hr :: string
  instructor :: "string option"
  sent_email :: int

text \<open>
  A connection holds the table as committed, the table as the open transaction sees it, and
  what the next calls to sqlite will do: the head of \<open>outcomes\<close> says whether the next call
  raises, and past the end of the list every call succeeds.
\<close>

datatype db_outcome = DbOk | DbRaises

record connection =
  committed :: "row list"
  working :: "row list"
  outcomes :: "db_outcome list"

definition connect :: "row list \<Rightarrow> db_outcome list \<Rightarrow> connection" where
  "connect table os = \<lparr>committed = table, working = table, outcomes = os\<rparr>"

definition db_call :: "connection \<Rightarrow> bool \<times> connection" where
  "db_call conn =
     (case outcomes conn of
        [] \<Rightarrow> (False, conn)
      | DbOk # os \<Rightarrow> (False, conn\<lparr>outcomes := os\<rparr>)
      | DbRaises # os \<Rightarrow> (True, conn\<lparr>outcomes := os\<rparr>))"

text \<open>
  Line 191 and \<^verbatim>\<open>fetchone\<close>: the column \<^verbatim>\<open>sent_email\<close> of the row with this
  \<^verbatim>\<open>appointment_string\<close>, or \<^verbatim>\<open>None\<close>.
\<close>

definition select_sent_email :: "string \<Rightarrow> connection \<Rightarrow> connection \<times> (exn + int option)" where
  "select_sent_email key conn =
     (case db_call conn of
        (True, conn') \<Rightarrow> (conn', Inl OperationalError)
      | (False, conn') \<Rightarrow>
          (conn', Inr (map_option sent_email
                         (find (\<lambda>r. appointment_string r = key) (working conn')))))"

text \<open>Lines 196 to 200: \<^verbatim>\<open>INSERT OR IGNORE\<close> leaves the table alone when the key is there.\<close>

definition insert_or_ignore :: "row \<Rightarrow> connection \<Rightarrow> connection \<times> (exn + unit)" where
  "insert_or_ignore r conn =
     (case db_call conn of
        (True, conn') \<Rightarrow> (conn', Inl OperationalError)
      | (False, conn') \<Rightarrow>
          (if list_ex (\<lambda>r'. appointment_string r' = appointment_string r) (working conn')
           then (conn', Inr ())
           else (conn'\<lparr>working := working conn' @ [r]\<rparr>, Inr ())))"

definition commit :: "connection \<Rightarrow> connection \<times> (exn + unit)" where
  "commit conn =
     (case db_call conn of
        (True, conn') \<Rightarrow> (conn', Inl OperationalError)
      | (False, conn') \<Rightarrow> (conn'\<lparr>committed := working conn'\<rparr>, Inr ()))"

text \<open>Line 212: closing drops what was not committed.\<close>

definition close :: "connection \<Rightarrow> row list" where
  "close conn = committed conn"

subsection \<open>The loop over the elements (lines 178 to 201)\<close>

record element =
  data_appointmentdatelongstring :: "string option"
  data_starttime :: "string option"
  data_endtime :: "string option"
  data_instructor :: "string option"

text \<open>
  Lines 181 to 189, which touch neither the table nor the list: they raise, or skip the
  element (\<^verbatim>\<open>continue\<close>), or keep it with its \<^verbatim>\<open>appointment_string\<close>, \<^verbatim>\<open>start_time\<close>
  and \<^verbatim>\<open>end_time\<close>.
\<close>

datatype verdict = Skip | Keep string string string

definition read_element :: "element \<Rightarrow> exn + verdict" where
  "read_element e =
     (let appointment_string = data_appointmentdatelongstring e in
      case convert_24hr_to_12hr (data_starttime e) of
        Inl x \<Rightarrow> Inl x
      | Inr start_time \<Rightarrow>
      (case convert_24hr_to_12hr (data_endtime e) of
        Inl x \<Rightarrow> Inl x
      | Inr end_time \<Rightarrow>
      (case appointment_string of
         None \<Rightarrow> Inl AttributeError
       | Some a \<Rightarrow>
       (case py_split CHR '','' a of
          [] \<Rightarrow> Inl IndexError
        | w # _ \<Rightarrow>
        (let day_of_week = py_strip w;
             start_time_limit = (if day_of_week \<in> set [''Sat'', ''Sun'']
                                 then WEEKEND_START_TIME else WEEKDAY_START_TIME)
         in case is_time_greater_or_equal start_time start_time_limit of
              Inl x \<Rightarrow> Inl x
            | Inr ge \<Rightarrow> if \<not> ge then Inr Skip else Inr (Keep a start_time end_time))))))"

text \<open>Line 195: the text that goes into the mail for an element.\<close>

definition entry :: "string option \<Rightarrow> string option \<Rightarrow> string" where
  "entry a i = py_format a @ '' | Instructor: '' @ py_format i"

definition entry_of :: "element \<Rightarrow> string" where
  "entry_of e = entry (data_appointmentdatelongstring e) (data_instructor e)"

text \<open>
  One turn of the loop, on the connection and \<^verbatim>\<open>appointments_to_send\<close>. The result is the
  state when the turn ends, and the exception if the turn raised.
\<close>

definition loop_body ::
  "element \<Rightarrow> connection \<times> string list \<Rightarrow> (connection \<times> string list) \<times> (exn + unit)" where
  "loop_body e st =
     (case st of (conn, appointments_to_send) \<Rightarrow>
      case read_element e of
        Inl x \<Rightarrow> (st, Inl x)
      | Inr Skip \<Rightarrow> (st, Inr ())
      | Inr (Keep a start_time end_time) \<Rightarrow>
      (case select_sent_email a conn of
         (conn1, Inl x) \<Rightarrow> ((conn1, appointments_to_send), Inl x)
       | (conn1, Inr (Some _)) \<Rightarrow> ((conn1, appointments_to_send), Inr ())
       | (conn1, Inr None) \<Rightarrow>
       (let appointments_to_send' = appointments_to_send @ [entry (Some a) (data_instructor e)] in
        case insert_or_ignore
               \<lparr>appointment_string = a, start_time_12hr = start_time,
                end_time_12hr = end_time, instructor = data_instructor e, sent_email = 1\<rparr>
               conn1 of
          (conn2, Inl x) \<Rightarrow> ((conn2, appointments_to_send'), Inl x)
        | (conn2, Inr _) \<Rightarrow>
        (case commit conn2 of
           (conn3, r) \<Rightarrow> ((conn3, appointments_to_send'), r)))))"

fun for_elements ::
  "element list \<Rightarrow> connection \<times> string list \<Rightarrow> (connection \<times> string list) \<times> (exn + unit)" where
  "for_elements [] st = (st, Inr ())"
| "for_elements (e # es) st =
     (case loop_body e st of
        (st', Inl x) \<Rightarrow> (st', Inl x)
      | (st', Inr _) \<Rightarrow> for_elements es st')"

subsection \<open>\<^verbatim>\<open>send_email\<close> (lines 98 to 121)\<close>

record message =
  msg_from :: string
  msg_to :: string
  msg_subject :: string
  msg_body :: string

text \<open>Lines 105 to 112.\<close>

definition compose :: "string list \<Rightarrow> message" where
  "compose appointments =
     (let subject = ''Driving Lesson Openings Available'';
          body = ''Here are the available appointments:'' @ [CHR 0x0A, CHR 0x0A]
                 @ py_join [CHR 0x0A] appointments;
          body' = body @ [CHR 0x0A, CHR 0x0A] @ ''You can log in here:'' @ [CHR 0x0A] @ LOGIN_LINK
      in \<lparr>msg_from = SENDER_EMAIL, msg_to = py_join '', '' RECIPIENT_EMAILS,
          msg_subject = subject, msg_body = body'\<rparr>)"

text \<open>
  What the mail server does in this cycle: for each step of lines 115 to 118, and for the
  \<^verbatim>\<open>QUIT\<close> that leaving the \<^verbatim>\<open>with\<close> block sends, the exception it raises, if any.
\<close>

record smtp_env =
  smtp_connect :: "exn option"
  smtp_starttls :: "exn option"
  smtp_login :: "exn option"
  smtp_send_message :: "exn option"
  smtp_quit :: "exn option"

text \<open>
  Leaving the \<^verbatim>\<open>with\<close> block on an exception still sends \<^verbatim>\<open>QUIT\<close>; if that raises too,
  its exception is the one that leaves the block.
\<close>

definition smtp_exit :: "smtp_env \<Rightarrow> exn \<Rightarrow> exn" where
  "smtp_exit env x = (case smtp_quit env of None \<Rightarrow> x | Some y \<Rightarrow> y)"

text \<open>Lines 115 to 118: the messages the server took, and the exception if one was raised.\<close>

definition smtp_session :: "smtp_env \<Rightarrow> message \<Rightarrow> message list \<times> (exn + unit)" where
  "smtp_session env m =
     (case smtp_connect env of
        Some x \<Rightarrow> ([], Inl x)
      | None \<Rightarrow>
      (case smtp_starttls env of
         Some x \<Rightarrow> ([], Inl (smtp_exit env x))
       | None \<Rightarrow>
       (case smtp_login env of
          Some x \<Rightarrow> ([], Inl (smtp_exit env x))
        | None \<Rightarrow>
        (case smtp_send_message env of
           Some x \<Rightarrow> ([], Inl (smtp_exit env x))
         | None \<Rightarrow>
         (case smtp_quit env of
            Some y \<Rightarrow> ([m], Inl y)
          | None \<Rightarrow> ([m], Inr ()))))))"

datatype log_entry = INFO string | ERROR string exn

text \<open>
  The result of \<^verbatim>\<open>send_email\<close>: the messages dispatched, the lines logged, and, as for
  every call, either an exception that leaves the function or a normal return.
\<close>

definition send_email ::
  "smtp_env \<Rightarrow> string list \<Rightarrow> (message list \<times> log_entry list) \<times> (exn + unit)" where
  "send_email env appointments =
     (let m = compose appointments in
      case smtp_session env m of
        (sent, Inr _) \<Rightarrow>
          ((sent, [INFO (''Email sent successfully to '' @ py_join '', '' RECIPIENT_EMAILS)]),
           Inr ())
      | (sent, Inl x) \<Rightarrow> ((sent, [ERROR ''Failed to send email'' x]), Inr ()))"

subsection \<open>\<^verbatim>\<open>run_scraper\<close> (lines 147 to 212), from the loop on\<close>

text \<open>
  What a cycle leaves behind: the table, the messages dispatched, the lines logged by
  lines 203 to 208 and by \<^verbatim>\<open>send_email\<close> (the traceback of line 209 is left out), and
  the exception that line 207 caught, if any.
\<close>

record cycle =
  store :: "row list"
  outbox :: "message list"
  logged :: "log_entry list"
  raised :: "exn option"

definition run_scraper ::
  "db_outcome list \<Rightarrow> smtp_env \<Rightarrow> row list \<Rightarrow> element list \<Rightarrow> cycle" where
  "run_scraper os env table date_elements =
     (let conn = connect table os in
      case for_elements date_elements (conn, []) of
        ((conn', _), Inl x) \<Rightarrow>
          \<lparr>store = close conn', outbox = [], logged = [ERROR ''Error in scraper'' x],
           raised = Some x\<rparr>
      | ((conn', appointments_to_send), Inr _) \<Rightarrow>
          (if appointments_to_send \<noteq> [] then
             (case send_email env appointments_to_send of
                ((sent, l), Inr _) \<Rightarrow>
                  \<lparr>store = close conn', outbox = sent, logged = l, raised = None\<rparr>
              | ((sent, l), Inl x) \<Rightarrow>
                  \<lparr>store = close conn', outbox = sent,
                   logged = l @ [ERROR ''Error in scraper'' x], raised = Some x\<rparr>)
           else \<lparr>store = close conn', outbox = [],
                 logged = [INFO ''No new appointments to email.''], raised = None\<rparr>))"

subsection \<open>Vocabulary of the statements\<close>

text \<open>A mail server on which every step succeeds.\<close>

definition smtp_ok :: smtp_env where
  "smtp_ok = \<lparr>smtp_connect = None, smtp_starttls = None, smtp_login = None,
              smtp_send_message = None, smtp_quit = None\<rparr>"

text \<open>An element that has its four attributes.\<close>

definition elem :: "string \<Rightarrow> string \<Rightarrow> string \<Rightarrow> string \<Rightarrow> element" where
  "elem a s e i = \<lparr>data_appointmentdatelongstring = Some a, data_starttime = Some s,
                  data_endtime = Some e, data_instructor = Some i\<rparr>"

text \<open>The table has a row for this \<^verbatim>\<open>appointment_string\<close>.\<close>

definition stored :: "string \<Rightarrow> row list \<Rightarrow> bool" where
  "stored k table = list_ex (\<lambda>r. appointment_string r = k) table"

text \<open>The text of line 195 for a row of the table.\<close>

definition row_entry :: "row \<Rightarrow> string" where
  "row_entry r = entry (Some (appointment_string r)) (instructor r)"

text \<open>
  A time of day on the twelve-hour clock, hour 1 to 12 and minute 0 to 59, written as
  \<^verbatim>\<open>%I:%M %p\<close> writes it (\<^verbatim>\<open>04:30 PM\<close>) or with the hour as \<^verbatim>\<open>convert_24hr_to_12hr\<close>
  writes it (\<^verbatim>\<open>4:30 PM\<close>), and the minutes since midnight that it denotes.
\<close>

datatype meridiem = AM | PM

definition two_digits :: "nat \<Rightarrow> string" where
  "two_digits n = [digit_char (n div 10), digit_char (n mod 10)]"

definition hour_text :: "bool \<Rightarrow> nat \<Rightarrow> string" where
  "hour_text padded h = (if padded then two_digits h else str_nat h)"

definition meridiem_text :: "meridiem \<Rightarrow> string" where
  "meridiem_text p = (case p of AM \<Rightarrow> ''AM'' | PM \<Rightarrow> ''PM'')"

definition time12 :: "bool \<Rightarrow> nat \<Rightarrow> nat \<Rightarrow> meridiem \<Rightarrow> string" where
  "time12 padded h m p =
     hour_text padded h @ '':'' @ two_digits m @ '' '' @ meridiem_text p"

definition minutes_since_midnight :: "nat \<Rightarrow> nat \<Rightarrow> meridiem \<Rightarrow> nat" where
  "minutes_since_midnight h m p = 60 * (h mod 12 + (case p of AM \<Rightarrow> 0 | PM \<Rightarrow> 12)) + m"

text \<open>
  Elements and rows of the examples. The spec's scenario gives each record an identifier, a
  day and a start time; the script reads the day from the text of \<^verbatim>\<open>appointment_string\<close>
  before its first comma, so the records A, B and C of the scenario are written here with
  the day in front of the identifier. \<open>slot_C_again\<close> has the identifier of \<open>slot_C\<close>,
  \<open>slot_bad\<close> has a start time that is not a number, and \<open>slot_E\<close> is one more
  appointment that starts late enough.
\<close>

definition slot_A :: element where
  "slot_A = elem ''Mon, A'' ''1600'' ''1700'' ''X''"

definition slot_B :: element where
  "slot_B = elem ''Sat, B'' ''0800'' ''0900'' ''X''"

definition slot_C :: element where
  "slot_C = elem ''Sun, C'' ''1000'' ''1100'' ''X''"

definition scenario :: "element list" where
  "scenario = [slot_A, slot_B, slot_C]"

definition slot_C_again :: element where
  "slot_C_again = elem ''Sun, C'' ''1030'' ''1130'' ''Y''"

definition slot_bad :: element where
  "slot_bad = elem ''Sun, D'' ''abcd'' ''1100'' ''X''"

definition slot_E :: element where
  "slot_E = elem ''Sat, E'' ''0930'' ''1030'' ''Z''"

definition row_C :: row where
  "row_C = \<lparr>appointment_string = ''Sun, C'', start_time_12hr = ''10:00 AM'',
            end_time_12hr = ''11:00 AM'', instructor = Some ''X'', sent_email = 1\<rparr>"

text \<open>A mail server that refuses the login.\<close>

definition smtp_login_refused :: smtp_env where
  "smtp_login_refused = smtp_ok\<lparr>smtp_login := Some SMTPException\<rparr>"

section \<open>Properties\<close>

declare str_nat.simps [simp del]

subsection \<open>Digits\<close>

lemma digit_char_numerals:
  "digit_char 0 = CHR ''0''" "digit_char 1 = CHR ''1''" "digit_char 2 = CHR ''2''"
  "digit_char 3 = CHR ''3''" "digit_char 4 = CHR ''4''" "digit_char 5 = CHR ''5''"
  "digit_char 6 = CHR ''6''" "digit_char 7 = CHR ''7''" "digit_char 8 = CHR ''8''"
  "digit_char 9 = CHR ''9''" "digit_char (Suc 0) = CHR ''1''"
  by code_simp+

subsection \<open>The conversion to the twelve-hour clock\<close>

lemma py_int_00: "py_int ''00'' = Inr 0"
  by code_simp

lemma py_int_12: "py_int ''12'' = Inr 12"
  by code_simp

lemma py_str_int_12: "py_str_int 12 = ''12''"
  by code_simp

lemma convert_hour_positive:
  assumes "py_int (take 2 s) = Inr h"
  shows "\<exists>h'. 1 \<le> h' \<and> convert_24hr_to_12hr (Some s) =
           Inr (py_str_int h' @ '':'' @ drop 2 s @ '' '' @ (if h < 12 then ''AM'' else ''PM''))"
proof -
  let ?h = "if 1 \<le> h \<and> h \<le> 12 then h else if h > 12 then h - 12 else 12"
  have "1 \<le> ?h" by simp
  moreover have "convert_24hr_to_12hr (Some s) =
      Inr (py_str_int ?h @ '':'' @ drop 2 s @ '' '' @ (if h < 12 then ''AM'' else ''PM''))"
    using assms by (simp add: convert_24hr_to_12hr_def Let_def)
  ultimately show ?thesis by blast
qed

text \<open>
  Claim C3. The conversion takes \<^verbatim>\<open>0000\<close> to 12:00 AM, \<^verbatim>\<open>1200\<close> to 12:00 PM,
  \<^verbatim>\<open>1530\<close> to 3:30 PM and \<^verbatim>\<open>0930\<close> to 9:30 AM. Whatever follows the two digits of the
  hour, hour 0 is written 12 with AM and hour 12 is written 12 with PM; and for every input
  whose first two characters read as an integer, the hour written is at least 1, so never 0
  and never negative.
\<close>

theorem convert_24hr_to_12hr_boundaries:
  "convert_24hr_to_12hr (Some ''0000'') = Inr ''12:00 AM''
   \<and> convert_24hr_to_12hr (Some ''1200'') = Inr ''12:00 PM''
   \<and> convert_24hr_to_12hr (Some ''1530'') = Inr ''3:30 PM''
   \<and> convert_24hr_to_12hr (Some ''0930'') = Inr ''9:30 AM''
   \<and> (\<forall>rest. convert_24hr_to_12hr (Some (''00'' @ rest)) = Inr (''12:'' @ rest @ '' AM''))
   \<and> (\<forall>rest. convert_24hr_to_12hr (Some (''12'' @ rest)) = Inr (''12:'' @ rest @ '' PM''))
   \<and> (\<forall>s h. py_int (take 2 s) = Inr h \<longrightarrow>
         (\<exists>h'. 1 \<le> h' \<and> convert_24hr_to_12hr (Some s) =
            Inr (py_str_int h' @ '':'' @ drop 2 s @ '' '' @ (if h < 12 then ''AM'' else ''PM''))))"
proof (intro conjI allI impI)
  show "convert_24hr_to_12hr (Some ''0000'') = Inr ''12:00 AM''" by code_simp
  show "convert_24hr_to_12hr (Some ''1200'') = Inr ''12:00 PM''" by code_simp
  show "convert_24hr_to_12hr (Some ''1530'') = Inr ''3:30 PM''" by code_simp
  show "convert_24hr_to_12hr (Some ''0930'') = Inr ''9:30 AM''" by code_simp
  show "convert_24hr_to_12hr (Some (''00'' @ rest)) = Inr (''12:'' @ rest @ '' AM'')" for rest
    by (simp add: convert_24hr_to_12hr_def py_int_00 py_str_int_12)
  show "convert_24hr_to_12hr (Some (''12'' @ rest)) = Inr (''12:'' @ rest @ '' PM'')" for rest
    by (simp add: convert_24hr_to_12hr_def py_int_12 py_str_int_12)
  show "\<exists>h'. 1 \<le> h' \<and> convert_24hr_to_12hr (Some s) =
            Inr (py_str_int h' @ '':'' @ drop 2 s @ '' '' @ (if h < 12 then ''AM'' else ''PM''))"
    if "py_int (take 2 s) = Inr h" for s h
    using that by (rule convert_hour_positive)
qed

theorem convert_24hr_to_12hr_boundaries_witness:
  "py_int (take 2 ''-530'') = Inr (- 5)
   \<and> (\<exists>h'. 1 \<le> h' \<and> convert_24hr_to_12hr (Some ''-530'') =
          Inr (py_str_int h' @ '':'' @ drop 2 ''-530'' @ '' '' @ (if (- 5 :: int) < 12 then ''AM'' else ''PM'')))"
proof -
  have h: "py_int (take 2 ''-530'') = Inr (- 5)" by code_simp
  from convert_24hr_to_12hr_boundaries
  have "\<forall>s h. py_int (take 2 s) = Inr h \<longrightarrow>
         (\<exists>h'. 1 \<le> h' \<and> convert_24hr_to_12hr (Some s) =
            Inr (py_str_int h' @ '':'' @ drop 2 s @ '' '' @ (if h < 12 then ''AM'' else ''PM'')))"
    by blast
  with h show ?thesis by blast
qed

subsection \<open>Parsing and comparing times of day\<close>

lemma is_digit_digit_char: "d < 10 \<Longrightarrow> is_digit (digit_char d)"
  by (simp add: is_digit_def digit_char_def)

lemma digit_val_digit_char: "d < 10 \<Longrightarrow> digit_val (digit_char d) = d"
  by (simp add: digit_val_def digit_char_def)

lemma not_space_digit_char: "d < 10 \<Longrightarrow> \<not> is_space (digit_char d)"
  by (simp add: is_space_def digit_char_def)

lemma digit_char_tens: "d < 6 \<Longrightarrow> digit_char d \<in> set ''012345''"
proof -
  assume "d < 6"
  then consider "d = 0" | "d = 1" | "d = 2" | "d = 3" | "d = 4" | "d = 5" by linarith
  then show ?thesis by cases (simp_all add: digit_char_numerals)
qed

lemma dec_val_two_digits: "n < 100 \<Longrightarrow> dec_val (two_digits n) = n"
  by (simp add: dec_val_def two_digits_def digit_val_digit_char)

lemma re_spaces_one: "\<not> is_space c \<Longrightarrow> re_spaces (CHR '' '' # c # r) = [c # r]"
  by (simp add: is_space_def)

lemma re_p_AM: "re_p ''AM'' = [(''AM'', [])]"
  by code_simp

lemma re_p_PM: "re_p ''PM'' = [(''PM'', [])]"
  by code_simp

lemma minute_tail:
  assumes "m < 60"
  shows "List.bind (re_M (two_digits m @ '' '' @ meridiem_text p)) (\<lambda>(mm, r3).
           List.bind (re_spaces r3) (\<lambda>r4.
           List.bind (re_p r4) (\<lambda>(pp, r5). [(i, mm, pp, r5)])))
         = [(i, two_digits m, meridiem_text p, [])]"
proof -
  have a: "digit_char (m div 10) \<in> set ''012345''" using assms by (intro digit_char_tens) simp
  have b: "is_digit (digit_char (m mod 10))" by (intro is_digit_digit_char) simp
  have c: "is_digit (digit_char (m div 10))" using assms by (intro is_digit_digit_char) simp
  have d: "\<not> is_space (digit_char (m mod 10))" by (intro not_space_digit_char) simp
  have s: "\<not> is_space CHR ''A''" "\<not> is_space CHR ''P''" "is_space CHR '' ''" by code_simp+
  show ?thesis
    using a b c d s
    by (cases p) (simp_all add: re_M_def two_digits_def meridiem_text_def re_p_AM re_p_PM del: set_simps)
qed


lemma hour_cases:
  assumes "1 \<le> h" "h \<le> 12"
  shows "h \<in> set [1, 2, 3, 4, 5, 6, 7, 8, 9, 10, 11, 12 :: nat]"
  using assms by (simp del: One_nat_def) presburger

lemma hour_text_values:
  "hour_text True 1 = ''01''" "hour_text True 2 = ''02''" "hour_text True 3 = ''03''"
  "hour_text True 4 = ''04''" "hour_text True 5 = ''05''" "hour_text True 6 = ''06''"
  "hour_text True 7 = ''07''" "hour_text True 8 = ''08''" "hour_text True 9 = ''09''"
  "hour_text True 10 = ''10''" "hour_text True 11 = ''11''" "hour_text True 12 = ''12''"
  "hour_text False 1 = ''1''" "hour_text False 2 = ''2''" "hour_text False 3 = ''3''"
  "hour_text False 4 = ''4''" "hour_text False 5 = ''5''" "hour_text False 6 = ''6''"
  "hour_text False 7 = ''7''" "hour_text False 8 = ''8''" "hour_text False 9 = ''9''"
  "hour_text False 10 = ''10''" "hour_text False 11 = ''11''" "hour_text False 12 = ''12''"
  by code_simp+

lemma hour_head_all:
  "\<forall>h \<in> set [1, 2, 3, 4, 5, 6, 7, 8, 9, 10, 11, 12 :: nat].
     List.bind (re_I (hour_text pd h @ CHR '':'' # r)) (\<lambda>(i, r1).
       List.bind (re_colon r1) (\<lambda>r2. K i r2)) = K (hour_text pd h) r"
  by (cases pd) (simp_all add: hour_text_values re_I_def re_colon_def del: One_nat_def)

lemma hour_head:
  assumes "1 \<le> h" "h \<le> 12"
  shows "List.bind (re_I (hour_text pd h @ CHR '':'' # r)) (\<lambda>(i, r1).
           List.bind (re_colon r1) (\<lambda>r2. K i r2)) = K (hour_text pd h) r"
  using hour_head_all hour_cases[OF assms] by blast

lemma dec_val_hour_text_all:
  "\<forall>h \<in> set [1, 2, 3, 4, 5, 6, 7, 8, 9, 10, 11, 12 :: nat]. dec_val (hour_text pd h) = h"
  by (cases pd) (simp_all add: hour_text_values dec_val_def digit_val_def del: One_nat_def)

lemma dec_val_hour_text:
  assumes "1 \<le> h" "h \<le> 12"
  shows "dec_val (hour_text pd h) = h"
  using dec_val_hour_text_all hour_cases[OF assms] by blast

lemma time12_alt: "time12 pd h m p = hour_text pd h @ CHR '':'' # (two_digits m @ '' '' @ meridiem_text p)"
  by (simp add: time12_def hour_text_def meridiem_text_def)

lemma re_match_time12:
  assumes "1 \<le> h" "h \<le> 12" "m < 60"
  shows "re_match (time12 pd h m p) = Some (hour_text pd h, two_digits m, meridiem_text p, [])"
  unfolding re_match_def time12_alt
  by (simp only: hour_head[OF assms(1,2)] minute_tail[OF assms(3)] list.case)

lemma strptime_time12:
  assumes "1 \<le> h" "h \<le> 12" "m < 60"
  shows "strptime (time12 pd h m p) =
           Inr \<lparr>year = 1900, month = 1, day = 1,
                hour = h mod 12 + (case p of AM \<Rightarrow> 0 | PM \<Rightarrow> 12), minute = m, second = 0\<rparr>"
proof -
  have m: "dec_val (two_digits m) = m" using assms(3) by (intro dec_val_two_digits) simp
  have h: "dec_val (hour_text pd h) = h" using assms by (intro dec_val_hour_text)
  have l: "map ascii_lower ''AM'' = ''am''" "map ascii_lower ''PM'' = ''pm''" by code_simp+
  show ?thesis
    using assms(1,2)
    by (cases p) (simp_all only: strptime_def re_match_time12[OF assms] m h l meridiem_text_def
        option.case prod.case meridiem.case Let_def, auto)
qed

lemma datetime_ge_same_day:
  "datetime_ge \<lparr>year = y, month = mo, day = d, hour = h1, minute = m1, second = s\<rparr>
               \<lparr>year = y, month = mo, day = d, hour = h2, minute = m2, second = s\<rparr>
   = (if h1 = h2 then m2 \<le> m1 else h2 < h1)"
  by (auto simp: datetime_ge_def)

text \<open>
  Claim C4. For two times of day on the twelve-hour clock, each written with or without
  a leading zero in the hour, the comparison returns without raising, and returns true
  exactly when the first is at or after the second, in minutes since midnight. Both values
  carry the same default date, so only the time of day decides, and equal times give true.
\<close>

theorem is_time_greater_or_equal_time_of_day:
  assumes "1 \<le> h1" "h1 \<le> 12" "m1 < 60" "1 \<le> h2" "h2 \<le> 12" "m2 < 60"
  shows "is_time_greater_or_equal (time12 pd1 h1 m1 p1) (time12 pd2 h2 m2 p2) =
           Inr (minutes_since_midnight h2 m2 p2 \<le> minutes_since_midnight h1 m1 p1)"
proof -
  let ?H1 = "h1 mod 12 + (case p1 of AM \<Rightarrow> 0 | PM \<Rightarrow> 12)"
  let ?H2 = "h2 mod 12 + (case p2 of AM \<Rightarrow> 0 | PM \<Rightarrow> 12)"
  have "(if ?H1 = ?H2 then m2 \<le> m1 else ?H2 < ?H1) = (60 * ?H2 + m2 \<le> 60 * ?H1 + m1)"
    using assms(3,6) by auto
  then show ?thesis
    by (simp only: is_time_greater_or_equal_def strptime_time12[OF assms(1,2,3)]
        strptime_time12[OF assms(4,5,6)] sum.case datetime_ge_same_day
        minutes_since_midnight_def)
qed

theorem is_time_greater_or_equal_time_of_day_witness:
  "time12 False 4 0 PM = ''4:00 PM'' \<and> time12 True 4 30 PM = ''04:30 PM''
   \<and> is_time_greater_or_equal (time12 False 4 0 PM) (time12 True 4 30 PM) = Inr False
   \<and> is_time_greater_or_equal (time12 True 4 30 PM) (time12 True 4 30 PM) = Inr True"
proof -
  have "time12 False 4 0 PM = ''4:00 PM''" "time12 True 4 30 PM = ''04:30 PM''"
    by code_simp+
  moreover have "is_time_greater_or_equal (time12 False 4 0 PM) (time12 True 4 30 PM) = Inr False"
    using is_time_greater_or_equal_time_of_day [of 4 0 4 30 False PM True PM]
    by (simp add: minutes_since_midnight_def)
  moreover have "is_time_greater_or_equal (time12 True 4 30 PM) (time12 True 4 30 PM) = Inr True"
    using is_time_greater_or_equal_time_of_day [of 4 30 4 30 True PM True PM]
    by (simp add: minutes_since_midnight_def)
  ultimately show ?thesis by blast
qed

subsection \<open>The calls to sqlite\<close>

lemma db_call_cases:
  obtains (ok) os where "db_call c = (False, c\<lparr>outcomes := os\<rparr>)"
      "set os \<subseteq> set (outcomes c)"
  | (raises) os where "db_call c = (True, c\<lparr>outcomes := os\<rparr>)"
      "set os \<subseteq> set (outcomes c)" "DbRaises \<in> set (outcomes c)"
proof (cases "outcomes c")
  case Nil
  then have "db_call c = (False, c\<lparr>outcomes := []\<rparr>)" by (simp add: db_call_def)
  then show ?thesis by (rule ok) simp
next
  case (Cons a os)
  show ?thesis
  proof (cases a)
    case DbOk
    with Cons show ?thesis by (intro ok[of os]) (auto simp: db_call_def)
  next
    case DbRaises
    with Cons show ?thesis by (intro raises[of os]) (auto simp: db_call_def)
  qed
qed

lemma stored_find: "stored k t = (find (\<lambda>r. appointment_string r = k) t \<noteq> None)"
  by (induction t) (auto simp: stored_def)

lemma stored_append: "stored k (t @ u) = (stored k t \<or> stored k u)"
  by (simp add: stored_def)

subsection \<open>One turn of the loop\<close>

text \<open>What a turn of the loop can do: the seven ways through lines 181 to 201.\<close>

lemma loop_body_cases:
  obtains
    (raise_read) x where "read_element e = Inl x" "loop_body e (c, acc) = ((c, acc), Inl x)"
  | (skip) "read_element e = Inr Skip" "loop_body e (c, acc) = ((c, acc), Inr ())"
  | (raise_select) a s t os where "read_element e = Inr (Keep a s t)"
      "DbRaises \<in> set (outcomes c)"
      "loop_body e (c, acc) = ((c\<lparr>outcomes := os\<rparr>, acc), Inl OperationalError)"
  | (seen) a s t os where "read_element e = Inr (Keep a s t)" "stored a (working c)"
      "set os \<subseteq> set (outcomes c)"
      "loop_body e (c, acc) = ((c\<lparr>outcomes := os\<rparr>, acc), Inr ())"
  | (raise_insert) a s t os where "read_element e = Inr (Keep a s t)" "\<not> stored a (working c)"
      "DbRaises \<in> set (outcomes c)"
      "loop_body e (c, acc) =
         ((c\<lparr>outcomes := os\<rparr>, acc @ [entry (Some a) (data_instructor e)]), Inl OperationalError)"
  | (raise_commit) a s t os where "read_element e = Inr (Keep a s t)" "\<not> stored a (working c)"
      "DbRaises \<in> set (outcomes c)"
      "loop_body e (c, acc) =
         ((c\<lparr>outcomes := os,
              working := working c @ [\<lparr>appointment_string = a, start_time_12hr = s,
                end_time_12hr = t, instructor = data_instructor e, sent_email = 1\<rparr>]\<rparr>,
           acc @ [entry (Some a) (data_instructor e)]), Inl OperationalError)"
  | (new) a s t os where "read_element e = Inr (Keep a s t)" "\<not> stored a (working c)"
      "set os \<subseteq> set (outcomes c)"
      "loop_body e (c, acc) =
         ((c\<lparr>outcomes := os,
              working := working c @ [\<lparr>appointment_string = a, start_time_12hr = s,
                end_time_12hr = t, instructor = data_instructor e, sent_email = 1\<rparr>],
              committed := working c @ [\<lparr>appointment_string = a, start_time_12hr = s,
                end_time_12hr = t, instructor = data_instructor e, sent_email = 1\<rparr>]\<rparr>,
           acc @ [entry (Some a) (data_instructor e)]), Inr ())"
proof (cases "read_element e")
  case (Inl x)
  then show ?thesis by (intro raise_read[of x]) (simp_all add: loop_body_def)
next
  case (Inr v)
  show ?thesis
  proof (cases v)
    case Skip
    with Inr show ?thesis by (intro skip) (simp_all add: loop_body_def)
  next
    case (Keep a s t)
    note k = Inr[unfolded Keep]
    show ?thesis
    proof (cases c rule: db_call_cases)
      case (raises os)
      then show ?thesis
        by (intro raise_select[of a s t os]) (simp_all add: k loop_body_def select_sent_email_def)
    next
      case (ok os1)
      note ok1 = this
      let ?c1 = "c\<lparr>outcomes := os1\<rparr>"
      show ?thesis
      proof (cases "stored a (working c)")
        case True
        then have "find (\<lambda>r. appointment_string r = a) (working c) \<noteq> None"
          by (simp add: stored_find)
        then show ?thesis using True ok
          by (intro seen[of a s t os1]) (auto simp: k loop_body_def select_sent_email_def)
      next
        case False
        then have f: "find (\<lambda>r. appointment_string r = a) (working c) = None"
          by (simp add: stored_find)
        have sel: "select_sent_email a c = (?c1, Inr None)"
          using ok f by (simp add: select_sent_email_def)
        have nl: "\<not> list_ex (\<lambda>r'. appointment_string r' = a) (working c)"
          using False by (simp add: stored_def)
        show ?thesis
        proof (cases ?c1 rule: db_call_cases)
          case (raises os2)
          then show ?thesis using False ok1(2)
            by (intro raise_insert[of a s t os2])
               (auto simp: k loop_body_def sel insert_or_ignore_def)
        next
          case (ok os2)
          note ok2 = this
          let ?r = "\<lparr>appointment_string = a, start_time_12hr = s,
                end_time_12hr = t, instructor = data_instructor e, sent_email = 1\<rparr>"
          let ?c2 = "c\<lparr>outcomes := os2, working := working c @ [?r]\<rparr>"
          have ins: "insert_or_ignore ?r ?c1 = (?c2, Inr ())"
            using ok2 nl by (simp add: insert_or_ignore_def)
          show ?thesis
          proof (cases ?c2 rule: db_call_cases)
            case (raises os3)
            then show ?thesis using False ok1(2) ok2(2)
              by (intro raise_commit[of a s t os3])
                 (auto simp: k loop_body_def sel ins commit_def)
          next
            case (ok os3)
            then show ?thesis using False ok1(2) ok2(2)
              by (intro new[of a s t os3])
                 (auto simp: k loop_body_def sel ins commit_def)
          qed
        qed
      qed
    qed
  qed
qed

lemma read_element_Keep:
  assumes "read_element e = Inr (Keep a s t)"
  shows "data_appointmentdatelongstring e = Some a"
    and "convert_24hr_to_12hr (data_starttime e) = Inr s"
    and "convert_24hr_to_12hr (data_endtime e) = Inr t"
  using assms
  by (auto simp: read_element_def Let_def split: sum.splits option.splits list.splits if_splits)

lemma entry_of_Keep: "read_element e = Inr (Keep a s t) \<Longrightarrow> entry (Some a) (data_instructor e) = entry_of e"
  by (simp add: entry_of_def read_element_Keep(1))


lemma loop_body_summary:
  assumes "loop_body e (c, acc) = ((c', out), r)"
  shows "(out = acc \<or> (out = acc @ [entry_of e]
            \<and> (\<exists>a. data_appointmentdatelongstring e = Some a \<and> \<not> stored a (working c))))
         \<and> (\<forall>k. stored k (working c') \<longrightarrow>
               stored k (working c) \<or> data_appointmentdatelongstring e = Some k)
         \<and> (\<forall>k. stored k (working c) \<longrightarrow> stored k (working c'))"
  using assms
  by (cases rule: loop_body_cases[of e c acc])
     (auto simp: stored_append entry_of_Keep read_element_Keep(1) stored_def)

lemma loop_body_rows:
  assumes "loop_body e (c, acc) = ((c', out), r)" and "working c = committed c"
  shows "\<exists>rows. committed c' = committed c @ rows \<and> (\<forall>row\<in>set rows. sent_email row = 1)
           \<and> (r = Inr () \<longrightarrow> working c' = committed c' \<and> out = acc @ map row_entry rows)"
  using assms
proof (cases rule: loop_body_cases[of e c acc])
  case (new a s t os)
  let ?r = "\<lparr>appointment_string = a, start_time_12hr = s,
            end_time_12hr = t, instructor = data_instructor e, sent_email = 1\<rparr>"
  have "committed c' = committed c @ [?r]" "working c' = committed c'"
       "out = acc @ map row_entry [?r]"
    using new assms by (auto simp: row_entry_def)
  then show ?thesis by (intro exI[of _ "[?r]"]) simp
qed (auto intro: exI[of _ "[]"])

subsection \<open>The whole loop\<close>

lemma for_elements_append:
  "for_elements (xs @ ys) st =
     (case for_elements xs st of
        (st', Inl x) \<Rightarrow> (st', Inl x)
      | (st', Inr u) \<Rightarrow> for_elements ys st')"
proof (induction xs arbitrary: st)
  case Nil
  then show ?case by simp
next
  case (Cons e xs)
  show ?case
  proof (cases "loop_body e st")
    case (Pair st' r)
    then show ?thesis by (cases r) (simp_all add: Cons.IH)
  qed
qed


lemma for_elements_summary:
  assumes "for_elements es (c, acc) = ((c', out), r)"
  shows "\<exists>ks. subseq ks es \<and> out = acc @ map entry_of ks
          \<and> (\<forall>e\<in>set ks. \<exists>a. data_appointmentdatelongstring e = Some a \<and> \<not> stored a (working c))
          \<and> (\<forall>k. stored k (working c') \<longrightarrow>
                stored k (working c) \<or> (\<exists>e\<in>set es. data_appointmentdatelongstring e = Some k))
          \<and> (\<forall>k. stored k (working c) \<longrightarrow> stored k (working c'))"
  using assms
proof (induction es arbitrary: c acc)
  case Nil
  then have "subseq [] ([]::element list) \<and> out = acc @ map entry_of []" and "c' = c" by auto
  then show ?case by (intro exI[of _ "[]"]) simp
next
  case (Cons e es)
  obtain c1 acc1 r1 where lb: "loop_body e (c, acc) = ((c1, acc1), r1)"
    by (metis prod.exhaust)
  note s1 = loop_body_summary[OF lb]
  define k0 where "k0 = (if acc1 = acc then [] else [e])"
  have a1: "acc1 = acc @ map entry_of k0" using s1 by (auto simp: k0_def)
  have n1: "\<forall>e\<in>set k0. \<exists>a. data_appointmentdatelongstring e = Some a \<and> \<not> stored a (working c)"
    using s1 by (auto simp: k0_def)
  have sub0: "subseq k0 [e]" by (simp add: k0_def)
  show ?case
  proof (cases r1)
    case (Inl x)
    with lb Cons.prems have eq: "c' = c1" "out = acc1" by auto
    have "subseq k0 (e # es)" using sub0 by (auto simp: k0_def)
    then show ?thesis using a1 n1 s1 eq by (intro exI[of _ k0]) auto
  next
    case (Inr u)
    with lb Cons.prems have "for_elements es (c1, acc1) = ((c', out), r)" by simp
    from Cons.IH[OF this] obtain ks where
      h: "subseq ks es" "out = acc1 @ map entry_of ks"
         "\<forall>e\<in>set ks. \<exists>a. data_appointmentdatelongstring e = Some a \<and> \<not> stored a (working c1)"
         "\<forall>k. stored k (working c') \<longrightarrow>
                stored k (working c1) \<or> (\<exists>e\<in>set es. data_appointmentdatelongstring e = Some k)"
         "\<forall>k. stored k (working c1) \<longrightarrow> stored k (working c')" by blast
    have "subseq (k0 @ ks) ([e] @ es)" using sub0 h(1) by (rule list_emb_append_mono)
    then have 1: "subseq (k0 @ ks) (e # es)" by simp
    have 2: "out = acc @ map entry_of (k0 @ ks)" using a1 h(2) by simp
    have 3: "\<forall>e\<in>set (k0 @ ks). \<exists>a. data_appointmentdatelongstring e = Some a \<and> \<not> stored a (working c)"
    proof -
      have mono: "\<And>k. stored k (working c) \<Longrightarrow> stored k (working c1)" using s1 by blast
      have "\<forall>e\<in>set ks. \<exists>a. data_appointmentdatelongstring e = Some a \<and> \<not> stored a (working c)"
        using h(3) mono by blast
      with n1 show ?thesis by (simp add: ball_Un)
    qed
    have 4: "\<forall>k. stored k (working c') \<longrightarrow>
                stored k (working c) \<or> (\<exists>e\<in>set (e # es). data_appointmentdatelongstring e = Some k)"
      using h(4) s1 by (simp del: subseq_Cons2_iff) blast
    have 5: "\<forall>k. stored k (working c) \<longrightarrow> stored k (working c')"
      using h(5) s1 by blast
    show ?thesis using 1 2 3 4 5 by blast
  qed
qed

lemma for_elements_rows:
  assumes "for_elements es (c, acc) = ((c', out), r)" and "working c = committed c"
  shows "\<exists>rows. committed c' = committed c @ rows \<and> (\<forall>row\<in>set rows. sent_email row = 1)
           \<and> (r = Inr () \<longrightarrow> working c' = committed c' \<and> out = acc @ map row_entry rows)"
  using assms
proof (induction es arbitrary: c acc)
  case Nil
  then show ?case by (intro exI[of _ "[]"]) auto
next
  case (Cons e es)
  obtain c1 acc1 r1 where lb: "loop_body e (c, acc) = ((c1, acc1), r1)"
    by (metis prod.exhaust)
  from loop_body_rows[OF lb Cons.prems(2)] obtain rows1 where
    h1: "committed c1 = committed c @ rows1" "\<forall>row\<in>set rows1. sent_email row = 1"
        "r1 = Inr () \<longrightarrow> working c1 = committed c1 \<and> acc1 = acc @ map row_entry rows1"
    by blast
  show ?case
  proof (cases r1)
    case (Inl x)
    with lb Cons.prems(1) have "c' = c1" "r = Inl x" by auto
    then show ?thesis using h1 by (intro exI[of _ rows1]) simp
  next
    case (Inr u)
    with lb Cons.prems(1) have run: "for_elements es (c1, acc1) = ((c', out), r)" by simp
    have clean: "working c1 = committed c1" and a1: "acc1 = acc @ map row_entry rows1"
      using h1(3) Inr by auto
    from Cons.IH[OF run clean] obtain rows2 where
      h2: "committed c' = committed c1 @ rows2" "\<forall>row\<in>set rows2. sent_email row = 1"
          "r = Inr () \<longrightarrow> working c' = committed c' \<and> out = acc1 @ map row_entry rows2"
      by blast
    show ?thesis using h1(1,2) h2 a1 by (intro exI[of _ "rows1 @ rows2"]) (auto simp: ball_Un)
  qed
qed

lemma for_elements_all_seen:
  assumes "for_elements es (c, acc) = ((c', out), Inr ())"
  shows "\<forall>e\<in>set es. read_element e = Inr Skip
            \<or> (\<exists>a s t. read_element e = Inr (Keep a s t) \<and> stored a (working c'))"
  using assms
proof (induction es arbitrary: c acc)
  case Nil
  then show ?case by simp
next
  case (Cons e es)
  obtain c1 acc1 r1 where lb: "loop_body e (c, acc) = ((c1, acc1), r1)"
    by (metis prod.exhaust)
  have r1: "r1 = Inr ()" using Cons.prems lb by (cases r1) simp_all
  have run: "for_elements es (c1, acc1) = ((c', out), Inr ())"
    using Cons.prems lb r1 by simp
  have mono: "\<And>k. stored k (working c1) \<Longrightarrow> stored k (working c')"
    using for_elements_summary[OF run] by blast
  have "read_element e = Inr Skip
          \<or> (\<exists>a s t. read_element e = Inr (Keep a s t) \<and> stored a (working c1))"
    using lb r1
    by (cases rule: loop_body_cases[of e c acc]) (auto simp: stored_append stored_def)
  then have "read_element e = Inr Skip
          \<or> (\<exists>a s t. read_element e = Inr (Keep a s t) \<and> stored a (working c'))"
    using mono by blast
  then show ?case using Cons.IH[OF run] by simp
qed

lemma for_elements_nothing_new:
  assumes "\<forall>e\<in>set es. read_element e = Inr Skip
            \<or> (\<exists>a s t. read_element e = Inr (Keep a s t) \<and> stored a (working c))"
  shows "\<exists>c' r. for_elements es (c, acc) = ((c', acc), r)
           \<and> committed c' = committed c \<and> working c' = working c
           \<and> (r = Inr () \<or> r = Inl OperationalError)
           \<and> (DbRaises \<notin> set (outcomes c) \<longrightarrow> r = Inr ())"
  using assms
proof (induction es arbitrary: c)
  case Nil
  then show ?case by simp
next
  case (Cons e es)
  have e: "read_element e = Inr Skip
            \<or> (\<exists>a s t. read_element e = Inr (Keep a s t) \<and> stored a (working c))"
    using Cons.prems by simp
  have "(\<exists>c1. loop_body e (c, acc) = ((c1, acc), Inr ()) \<and> committed c1 = committed c
            \<and> working c1 = working c \<and> set (outcomes c1) \<subseteq> set (outcomes c))
        \<or> (\<exists>c1. loop_body e (c, acc) = ((c1, acc), Inl OperationalError)
            \<and> committed c1 = committed c \<and> working c1 = working c
            \<and> DbRaises \<in> set (outcomes c))"
    using e by (cases rule: loop_body_cases[of e c acc]) auto
  then show ?case
  proof (elim disjE exE conjE)
    fix c1
    assume lb: "loop_body e (c, acc) = ((c1, acc), Inr ())"
      and same: "committed c1 = committed c" "working c1 = working c"
      and os: "set (outcomes c1) \<subseteq> set (outcomes c)"
    have "\<forall>e\<in>set es. read_element e = Inr Skip
            \<or> (\<exists>a s t. read_element e = Inr (Keep a s t) \<and> stored a (working c1))"
      using Cons.prems same by simp
    from Cons.IH[OF this] obtain c' r where
      h: "for_elements es (c1, acc) = ((c', acc), r)" "committed c' = committed c1"
         "working c' = working c1" "r = Inr () \<or> r = Inl OperationalError"
         "DbRaises \<notin> set (outcomes c1) \<longrightarrow> r = Inr ()" by blast
    have "for_elements (e # es) (c, acc) = ((c', acc), r)" using lb h(1) by simp
    moreover have "DbRaises \<notin> set (outcomes c) \<longrightarrow> r = Inr ()" using h(5) os by blast
    ultimately show ?thesis using h(2,3,4) same by auto
  next
    fix c1
    assume lb: "loop_body e (c, acc) = ((c1, acc), Inl OperationalError)"
      and same: "committed c1 = committed c" "working c1 = working c"
      and os: "DbRaises \<in> set (outcomes c)"
    have "for_elements (e # es) (c, acc) = ((c1, acc), Inl OperationalError)" using lb by simp
    then show ?thesis using same os by auto
  qed
qed

subsection \<open>The mail and the cycle\<close>

lemma smtp_session_sent: "fst (smtp_session env m) = [] \<or> fst (smtp_session env m) = [m]"
  by (simp add: smtp_session_def split: option.splits)

lemma send_email_returns:
  "\<exists>sent l. send_email env appointments = ((sent, l), Inr ())
      \<and> (sent = [] \<or> sent = [compose appointments])"
proof -
  obtain sent r where s: "smtp_session env (compose appointments) = (sent, r)"
    by (cases "smtp_session env (compose appointments)")
  have "sent = [] \<or> sent = [compose appointments]"
    using smtp_session_sent[of env "compose appointments"] s by simp
  then show ?thesis using s by (cases r) (auto simp: send_email_def)
qed

lemma run_scraper_store:
  "store (run_scraper os env table es) =
     committed (fst (fst (for_elements es (connect table os, []))))"
proof -
  obtain c' out r where f: "for_elements es (connect table os, []) = ((c', out), r)"
    by (metis prod.exhaust)
  obtain sent l where s: "send_email env out = ((sent, l), Inr ())"
    using send_email_returns by blast
  show ?thesis using f s by (cases r) (simp_all add: run_scraper_def close_def)
qed

lemma run_scraper_raised:
  "raised (run_scraper os env table es) =
     (case snd (for_elements es (connect table os, [])) of Inl x \<Rightarrow> Some x | Inr u \<Rightarrow> None)"
proof -
  obtain c' out r where f: "for_elements es (connect table os, []) = ((c', out), r)"
    by (metis prod.exhaust)
  obtain sent l where s: "send_email env out = ((sent, l), Inr ())"
    using send_email_returns by blast
  show ?thesis using f s by (cases r) (simp_all add: run_scraper_def)
qed

lemma run_scraper_outbox:
  "outbox (run_scraper os env table es) =
     (case for_elements es (connect table os, []) of
        ((c', out), Inl x) \<Rightarrow> []
      | ((c', out), Inr u) \<Rightarrow> if out \<noteq> [] then fst (fst (send_email env out)) else [])"
proof -
  obtain c' out r where f: "for_elements es (connect table os, []) = ((c', out), r)"
    by (metis prod.exhaust)
  obtain sent l where s: "send_email env out = ((sent, l), Inr ())"
    using send_email_returns by blast
  show ?thesis using f s by (cases r) (simp_all add: run_scraper_def)
qed

lemma smtp_session_ok: "smtp_session smtp_ok m = ([m], Inr ())"
  by (simp add: smtp_session_def smtp_ok_def)

lemma send_email_ok:
  "send_email smtp_ok apps =
     (([compose apps],
       [INFO (''Email sent successfully to '' @ py_join '', '' RECIPIENT_EMAILS)]), Inr ())"
  by (simp add: send_email_def smtp_session_ok)

subsection \<open>The elements of the examples\<close>

lemma read_slot_A: "read_element slot_A = Inr Skip"
  by code_simp

lemma read_slot_B: "read_element slot_B = Inr Skip"
  by code_simp

lemma read_slot_C: "read_element slot_C = Inr (Keep ''Sun, C'' ''10:00 AM'' ''11:00 AM'')"
  by code_simp

lemma read_slot_C_again:
  "read_element slot_C_again = Inr (Keep ''Sun, C'' ''10:30 AM'' ''11:30 AM'')"
  by code_simp

lemma read_slot_bad: "read_element slot_bad = Inl ValueError"
  by code_simp


lemma entry_of_slots:
  "entry_of slot_A = ''Mon, A | Instructor: X''"
  "entry_of slot_C = ''Sun, C | Instructor: X''"
  "data_instructor slot_C = Some ''X''"
  "data_instructor slot_C_again = Some ''Y''"
  "entry (Some ''Sun, C'') (Some ''X'') = ''Sun, C | Instructor: X''"
  by code_simp+

lemmas db_defs = connect_def db_call_def select_sent_email_def insert_or_ignore_def
  commit_def close_def

lemma scenario_loop:
  "for_elements scenario (connect [] [], []) =
     ((\<lparr>committed = [row_C], working = [row_C], outcomes = []\<rparr>, [entry_of slot_C]), Inr ())"
  by (simp add: scenario_def loop_body_def read_slot_A read_slot_B read_slot_C db_defs
      entry_of_slots row_C_def)

lemma scenario_times:
  "convert_24hr_to_12hr (data_starttime slot_A) = Inr ''4:00 PM''"
  "is_time_greater_or_equal ''4:00 PM'' WEEKDAY_START_TIME = Inr False"
  "convert_24hr_to_12hr (data_starttime slot_B) = Inr ''8:00 AM''"
  "is_time_greater_or_equal ''8:00 AM'' WEEKEND_START_TIME = Inr False"
  by code_simp+

lemma run_slot_C:
  "run_scraper [] smtp_ok [] [slot_C] =
     \<lparr>store = [row_C], outbox = [compose [entry_of slot_C]],
      logged = [INFO (''Email sent successfully to '' @ py_join '', '' RECIPIENT_EMAILS)],
      raised = None\<rparr>"
  by (simp add: run_scraper_def loop_body_def read_slot_C db_defs entry_of_slots row_C_def
      send_email_ok)

subsection \<open>The scenario of the spec\<close>

text \<open>
  Claim C1, as stated, fails: on the batch of the scenario, with an empty table, the record A
  is not among the accepted ones, so the accepted set is not the set of A and C.
\<close>

theorem scenario_A_not_accepted:
  "entry_of slot_A \<notin> set (snd (fst (for_elements scenario (connect [] [], []))))
   \<and> set (snd (fst (for_elements scenario (connect [] [], []))))
       \<noteq> {entry_of slot_A, entry_of slot_C}"
  by (simp add: scenario_loop entry_of_slots)

text \<open>
  Claim C1, amended. With the thresholds 4:30 PM on weekdays and 9:00 AM at the weekend, the
  loop on the batch of the scenario and an empty table accepts C alone: A is skipped because
  its start on Monday, 4:00 PM, is before 4:30 PM; B is skipped because its start on
  Saturday, 8:00 AM, is before 9:00 AM; C starts on Sunday at 10:00 AM and is kept, stored
  and mailed.
\<close>

theorem scenario_accepts_C_only:
  "for_elements scenario (connect [] [], []) =
     ((\<lparr>committed = [row_C], working = [row_C], outcomes = []\<rparr>, [entry_of slot_C]), Inr ())
   \<and> read_element slot_A = Inr Skip
   \<and> convert_24hr_to_12hr (data_starttime slot_A) = Inr ''4:00 PM''
   \<and> is_time_greater_or_equal ''4:00 PM'' WEEKDAY_START_TIME = Inr False
   \<and> read_element slot_B = Inr Skip
   \<and> convert_24hr_to_12hr (data_starttime slot_B) = Inr ''8:00 AM''
   \<and> is_time_greater_or_equal ''8:00 AM'' WEEKEND_START_TIME = Inr False
   \<and> read_element slot_C = Inr (Keep ''Sun, C'' ''10:00 AM'' ''11:00 AM'')
   \<and> store (run_scraper [] smtp_ok [] scenario) = [row_C]
   \<and> outbox (run_scraper [] smtp_ok [] scenario) = [compose [entry_of slot_C]]"
  by (simp add: scenario_loop scenario_times read_slot_A read_slot_B read_slot_C
      run_scraper_def send_email_ok close_def)

subsection \<open>An element that raises\<close>

text \<open>
  Claim C2, as stated, fails: a start time that is not a number raises \<^verbatim>\<open>ValueError\<close>,
  nothing in the loop catches it, and the element that follows, which the script accepts,
  stores and mails when it comes alone, is neither stored nor mailed.
\<close>

theorem one_bad_record_aborts_batch:
  "read_element slot_bad = Inl ValueError
   \<and> run_scraper [] smtp_ok [] [slot_bad, slot_C] =
       \<lparr>store = [], outbox = [], logged = [ERROR ''Error in scraper'' ValueError],
        raised = Some ValueError\<rparr>
   \<and> store (run_scraper [] smtp_ok [] [slot_C]) = [row_C]
   \<and> outbox (run_scraper [] smtp_ok [] [slot_C]) = [compose [entry_of slot_C]]"
proof -
  have "run_scraper [] smtp_ok [] [slot_bad, slot_C] =
       \<lparr>store = [], outbox = [], logged = [ERROR ''Error in scraper'' ValueError],
        raised = Some ValueError\<rparr>"
    by (simp add: read_slot_bad run_scraper_def loop_body_def db_defs)
  then show ?thesis by (simp add: read_slot_bad run_slot_C)
qed

text \<open>
  Claim C2, amended. An element on which lines 181 to 188 raise (a time that
  \<^verbatim>\<open>convert_24hr_to_12hr\<close> or \<^verbatim>\<open>strptime\<close> rejects, or a missing attribute) ends the
  cycle: when the elements before it went through without an exception, the table is left as
  those elements left it, no mail is sent, the elements after it are not read, and the
  exception is logged once by line 208.
\<close>

theorem raising_element_aborts_cycle:
  assumes "read_element bad = Inl x"
    and "raised (run_scraper os env table pre) = None"
  shows "run_scraper os env table (pre @ bad # post) =
           \<lparr>store = store (run_scraper os env table pre), outbox = [],
            logged = [ERROR ''Error in scraper'' x], raised = Some x\<rparr>"
proof -
  obtain c1 acc1 r1 where f: "for_elements pre (connect table os, []) = ((c1, acc1), r1)"
    by (metis prod.exhaust)
  have r1: "r1 = Inr ()" using assms(2) f by (cases r1) (simp_all add: run_scraper_raised)
  have "loop_body bad (c1, acc1) = ((c1, acc1), Inl x)"
    using assms(1) by (simp add: loop_body_def)
  then have "for_elements (pre @ bad # post) (connect table os, []) = ((c1, acc1), Inl x)"
    using f r1 by (simp add: for_elements_append)
  moreover have "store (run_scraper os env table pre) = committed c1"
    using f by (simp add: run_scraper_store)
  ultimately show ?thesis by (simp add: run_scraper_def close_def)
qed

text \<open>The amended claim C2 at a batch of three: the first was stored, and is never mailed.\<close>

theorem raising_element_aborts_cycle_witness:
  "read_element slot_bad = Inl ValueError
   \<and> raised (run_scraper [] smtp_ok [] [slot_C]) = None
   \<and> run_scraper [] smtp_ok [] ([slot_C] @ slot_bad # [slot_E]) =
       \<lparr>store = [row_C], outbox = [], logged = [ERROR ''Error in scraper'' ValueError],
        raised = Some ValueError\<rparr>"
proof -
  have h1: "read_element slot_bad = Inl ValueError" by (rule read_slot_bad)
  have h2: "raised (run_scraper [] smtp_ok [] [slot_C]) = None" by (simp add: run_slot_C)
  show ?thesis
    using h1 h2 raising_element_aborts_cycle[OF h1 h2, of "[slot_E]"]
    by (simp add: run_slot_C)
qed

subsection \<open>The same batch twice\<close>

text \<open>
  Claim C5. When the loop has gone through a batch without an exception, starting from any
  table, going through the same batch again on the table it left accepts nothing: the list
  is empty and the table is unchanged, whatever sqlite does the second time; the second pass
  returns unless a call to sqlite raises, and no mail is sent.
\<close>

theorem second_pass_accepts_nothing:
  assumes "for_elements es (connect table os, []) = ((c1, out1), Inr ())"
  shows "\<exists>c2 r. for_elements es (connect (close c1) os', []) = ((c2, []), r)
           \<and> close c2 = close c1
           \<and> (r = Inr () \<or> r = Inl OperationalError)
           \<and> (DbRaises \<notin> set os' \<longrightarrow> r = Inr ())
           \<and> outbox (run_scraper os' env (close c1) es) = []
           \<and> store (run_scraper os' env (close c1) es) = close c1"
proof -
  have clean: "working (connect table os) = committed (connect table os)"
    by (simp add: connect_def)
  have w1: "working c1 = committed c1"
    using for_elements_rows[OF assms clean] by auto
  have seen: "\<forall>e\<in>set es. read_element e = Inr Skip
            \<or> (\<exists>a s t. read_element e = Inr (Keep a s t)
                  \<and> stored a (working (connect (close c1) os')))"
    using for_elements_all_seen[OF assms] w1 by (simp add: connect_def close_def)
  from for_elements_nothing_new[OF seen, of "[]"] obtain c2 r where
    h: "for_elements es (connect (close c1) os', []) = ((c2, []), r)"
       "committed c2 = committed (connect (close c1) os')"
       "r = Inr () \<or> r = Inl OperationalError"
       "DbRaises \<notin> set (outcomes (connect (close c1) os')) \<longrightarrow> r = Inr ()"
    by blast
  have 1: "close c2 = close c1" using h(2) by (simp add: close_def connect_def)
  have 2: "DbRaises \<notin> set os' \<longrightarrow> r = Inr ()" using h(4) by (simp add: connect_def)
  have 3: "outbox (run_scraper os' env (close c1) es) = []"
    using h(1) by (cases r) (simp_all add: run_scraper_outbox)
  have 4: "store (run_scraper os' env (close c1) es) = close c1"
    using h(1) 1 by (simp add: run_scraper_store close_def)
  show ?thesis using h(1,3) 1 2 3 4 by blast
qed

text \<open>Claim C5 on the scenario: the first pass accepts C, the second nothing.\<close>

theorem second_pass_accepts_nothing_witness:
  "for_elements scenario (connect [] [], []) =
     ((\<lparr>committed = [row_C], working = [row_C], outcomes = []\<rparr>, [entry_of slot_C]), Inr ())
   \<and> (\<exists>c2. for_elements scenario (connect [row_C] [], []) = ((c2, []), Inr ())
          \<and> close c2 = [row_C])
   \<and> outbox (run_scraper [] smtp_ok [row_C] scenario) = []
   \<and> store (run_scraper [] smtp_ok [row_C] scenario) = [row_C]"
proof -
  have h: "for_elements scenario (connect [] [], []) =
     ((\<lparr>committed = [row_C], working = [row_C], outcomes = []\<rparr>, [entry_of slot_C]), Inr ())"
    by (rule scenario_loop)
  show ?thesis
    using h second_pass_accepts_nothing[OF h, of "[]" smtp_ok]
    by (auto simp: close_def)
qed

subsection \<open>Two elements with one identifier\<close>

text \<open>
  Claim C6, as stated, fails: when the table already has a row for the identifier, both
  elements pass the time filter and none of them is accepted.
\<close>

theorem duplicate_already_stored:
  "read_element slot_C = Inr (Keep ''Sun, C'' ''10:00 AM'' ''11:00 AM'')
   \<and> read_element slot_C_again = Inr (Keep ''Sun, C'' ''10:30 AM'' ''11:30 AM'')
   \<and> for_elements [slot_C, slot_C_again] (connect [row_C] [], []) =
       ((connect [row_C] [], []), Inr ())"
  by (simp add: read_slot_C read_slot_C_again loop_body_def db_defs row_C_def)

text \<open>
  Claim C6, amended. When the table has no row for the identifier and the loop goes through
  the batch without an exception, the first element with that identifier, if it passes the
  time filter, is accepted at its place in the order of the batch, and no other accepted
  element has that identifier: neither before it nor after it, however many elements of the
  batch repeat the identifier.
\<close>

theorem first_occurrence_accepted_once:
  assumes run: "for_elements (xs @ e1 # rest) (c, acc) = ((c', out), Inr ())"
    and first: "\<forall>x\<in>set xs. data_appointmentdatelongstring x \<noteq> Some k"
    and keep: "read_element e1 = Inr (Keep k s t)"
    and fresh: "\<not> stored k (working c)"
  shows "\<exists>ks1 ks2. subseq ks1 xs \<and> subseq ks2 rest
           \<and> out = acc @ map entry_of ks1 @ [entry_of e1] @ map entry_of ks2
           \<and> (\<forall>e\<in>set (ks1 @ ks2). data_appointmentdatelongstring e \<noteq> Some k)"
proof -
  obtain c1 acc1 r1 where p1: "for_elements xs (c, acc) = ((c1, acc1), r1)"
    by (metis prod.exhaust)
  have r1: "for_elements (e1 # rest) (c1, acc1) = ((c', out), Inr ())"
    using run p1 by (cases r1) (simp_all add: for_elements_append)
  obtain c2 acc2 r2 where p2: "loop_body e1 (c1, acc1) = ((c2, acc2), r2)"
    by (metis prod.exhaust)
  have p3: "for_elements rest (c2, acc2) = ((c', out), Inr ())"
    using r1 p2 by (cases r2) simp_all
  have ok2: "r2 = Inr ()" using r1 p2 by (cases r2) simp_all
  from for_elements_summary[OF p1] obtain ks1 where
    k1: "subseq ks1 xs" "acc1 = acc @ map entry_of ks1"
      "\<forall>k. stored k (working c1) \<longrightarrow>
          stored k (working c) \<or> (\<exists>e\<in>set xs. data_appointmentdatelongstring e = Some k)"
    by blast
  have fresh1: "\<not> stored k (working c1)" using k1(3) fresh first by blast
  have "set ks1 \<subseteq> set xs" using k1(1) by (auto dest: list_emb_set)
  then have id1: "\<forall>e\<in>set ks1. data_appointmentdatelongstring e \<noteq> Some k" using first by blast
  have step: "acc2 = acc1 @ [entry_of e1] \<and> stored k (working c2)"
    using p2 ok2 keep fresh1
    by (cases rule: loop_body_cases[of e1 c1 acc1]) (auto simp: entry_of_Keep stored_append stored_def)
  from for_elements_summary[OF p3] obtain ks2 where
    k2: "subseq ks2 rest" "out = acc2 @ map entry_of ks2"
      "\<forall>e\<in>set ks2. \<exists>a. data_appointmentdatelongstring e = Some a \<and> \<not> stored a (working c2)"
    by blast
  have id2: "\<forall>e\<in>set ks2. data_appointmentdatelongstring e \<noteq> Some k" using k2(3) step by auto
  have "out = acc @ map entry_of ks1 @ [entry_of e1] @ map entry_of ks2"
    using k1(2) k2(2) step by simp
  moreover have "\<forall>e\<in>set (ks1 @ ks2). data_appointmentdatelongstring e \<noteq> Some k"
    using id1 id2 by (simp add: ball_Un)
  ultimately show ?thesis using k1(1) k2(1) by blast
qed

text \<open>The amended claim C6 on two elements with the identifier of C.\<close>

theorem first_occurrence_accepted_once_witness:
  "for_elements ([] @ slot_C # [slot_C_again]) (connect [] [], []) =
     ((\<lparr>committed = [row_C], working = [row_C], outcomes = []\<rparr>, [entry_of slot_C]), Inr ())
   \<and> read_element slot_C = Inr (Keep ''Sun, C'' ''10:00 AM'' ''11:00 AM'')
   \<and> \<not> stored ''Sun, C'' (working (connect [] []))
   \<and> (\<exists>ks1 ks2. subseq ks1 [] \<and> subseq ks2 [slot_C_again]
         \<and> [entry_of slot_C] = [] @ map entry_of ks1 @ [entry_of slot_C] @ map entry_of ks2
         \<and> (\<forall>e\<in>set (ks1 @ ks2). data_appointmentdatelongstring e \<noteq> Some ''Sun, C''))"
proof -
  have h1: "for_elements ([] @ slot_C # [slot_C_again]) (connect [] [], []) =
     ((\<lparr>committed = [row_C], working = [row_C], outcomes = []\<rparr>, [entry_of slot_C]), Inr ())"
    by (simp add: read_slot_C read_slot_C_again loop_body_def db_defs row_C_def entry_of_slots)
  have h2: "\<forall>x\<in>set ([]::element list). data_appointmentdatelongstring x \<noteq> Some ''Sun, C''"
    by simp
  have h3: "read_element slot_C = Inr (Keep ''Sun, C'' ''10:00 AM'' ''11:00 AM'')"
    by (rule read_slot_C)
  have h4: "\<not> stored ''Sun, C'' (working (connect [] []))"
    by (simp add: stored_def connect_def)
  show ?thesis
    using h1 h3 h4 first_occurrence_accepted_once[OF h1 h2 h3 h4] by simp
qed

subsection \<open>The order of the accepted elements\<close>

text \<open>
  Claim C7. From any state, and whether or not the loop ends on an exception, the list
  \<^verbatim>\<open>appointments_to_send\<close> is what it was before the loop followed by the entries of a
  subsequence of the batch: the accepted elements keep the order of the batch.
\<close>

theorem for_elements_preserves_order:
  "\<exists>ks. subseq ks es \<and> snd (fst (for_elements es (c, acc))) = acc @ map entry_of ks"
proof -
  obtain c' out r where "for_elements es (c, acc) = ((c', out), r)"
    by (metis prod.exhaust)
  from for_elements_summary[OF this] this show ?thesis by auto
qed

text \<open>Claim C7 on the scenario.\<close>

theorem for_elements_preserves_order_witness:
  "\<exists>ks. subseq ks scenario
      \<and> snd (fst (for_elements scenario (connect [] [], []))) = [] @ map entry_of ks"
  using for_elements_preserves_order [of scenario "connect [] []" "[]"] .

subsection \<open>A call to sqlite that raises\<close>



subsection \<open>The column \<^verbatim>\<open>sent_email\<close>\<close>

text \<open>
  Claim C9, as stated, fails: when the mail server refuses the login, no message is
  dispatched, and the row of the accepted element is in the table with \<^verbatim>\<open>sent_email\<close> 1.
\<close>

theorem marked_notified_without_notification:
  "run_scraper [] smtp_login_refused [] [slot_C] =
     \<lparr>store = [row_C], outbox = [], logged = [ERROR ''Failed to send email'' SMTPException],
      raised = None\<rparr>
   \<and> sent_email row_C = 1"
  by (simp add: run_scraper_def loop_body_def read_slot_C db_defs entry_of_slots row_C_def
      send_email_def smtp_session_def smtp_login_refused_def smtp_ok_def smtp_exit_def)

text \<open>
  Claim C9, amended. Every row that a cycle adds to the table has \<^verbatim>\<open>sent_email\<close> 1 from
  the moment it is inserted, which is before any mail is attempted, and keeps it whether or
  not a message is dispatched; a message that is dispatched lists exactly the rows added by
  the cycle.
\<close>

theorem sent_email_set_at_insert:
  "\<exists>rows. store (run_scraper os env table es) = table @ rows
      \<and> (\<forall>r\<in>set rows. sent_email r = 1)
      \<and> (outbox (run_scraper os env table es) = []
          \<or> outbox (run_scraper os env table es) = [compose (map row_entry rows)])"
proof -
  obtain c' out r where f: "for_elements es (connect table os, []) = ((c', out), r)"
    by (metis prod.exhaust)
  have "working (connect table os) = committed (connect table os)" by (simp add: connect_def)
  from for_elements_rows[OF f this] obtain rows where
    h: "committed c' = table @ rows" "\<forall>row\<in>set rows. sent_email row = 1"
       "r = Inr () \<longrightarrow> out = map row_entry rows"
    by (auto simp: connect_def)
  have 1: "store (run_scraper os env table es) = table @ rows"
    using f h(1) by (simp add: run_scraper_store)
  have 2: "outbox (run_scraper os env table es) = []
          \<or> outbox (run_scraper os env table es) = [compose (map row_entry rows)]"
  proof (cases r)
    case (Inl x)
    then show ?thesis using f by (simp add: run_scraper_outbox)
  next
    case (Inr u)
    then have o: "out = map row_entry rows" using h(3) by simp
    obtain sent l where "send_email env out = ((sent, l), Inr ())"
        "sent = [] \<or> sent = [compose out]"
      using send_email_returns by blast
    then show ?thesis using f Inr o by (auto simp: run_scraper_outbox)
  qed
  show ?thesis using 1 2 h(2) by blast
qed

text \<open>The amended claim C9 when the login is refused.\<close>

theorem sent_email_set_at_insert_witness:
  "store (run_scraper [] smtp_login_refused [] [slot_C]) = [] @ [row_C]
   \<and> row_C \<in> set [row_C] \<and> sent_email row_C = 1
   \<and> outbox (run_scraper [] smtp_login_refused [] [slot_C]) = []"
proof -
  from sent_email_set_at_insert[of "[]" smtp_login_refused "[]" "[slot_C]"]
  obtain rows where
    h: "store (run_scraper [] smtp_login_refused [] [slot_C]) = [] @ rows"
       "\<forall>r\<in>set rows. sent_email r = 1" by blast
  have s: "run_scraper [] smtp_login_refused [] [slot_C] =
     \<lparr>store = [row_C], outbox = [], logged = [ERROR ''Failed to send email'' SMTPException],
      raised = None\<rparr>"
    by (simp add: run_scraper_def loop_body_def read_slot_C db_defs entry_of_slots row_C_def
      send_email_def smtp_session_def smtp_login_refused_def smtp_ok_def smtp_exit_def)
  have "rows = [row_C]" using h(1) s by simp
  then show ?thesis using h(2) s by simp
qed

subsection \<open>\<^verbatim>\<open>send_email\<close> returns\<close>



end
